theory Spec2Isabelle
  imports Main "HOL-Library.AList"
begin

section \<open>Values and objects\<close>

text \<open>
  Configuration values are JSON values. The store never looks inside a value: it copies
  values between objects, hands them to \<^verbatim>\<open>JSON.stringify\<close> and takes them from
  \<^verbatim>\<open>JSON.parse\<close>. The number payload is therefore opaque; an integer stands for it.
  A JavaScript value that may also be \<^verbatim>\<open>undefined\<close> (the result of \<^verbatim>\<open>conf[key]\<close>) is a
  \<open>json option\<close>, \<open>None\<close> being \<^verbatim>\<open>undefined\<close>.

  An object is the list of its own enumerable properties in the order in which
  \<^verbatim>\<open>Object.entries\<close> lists them. Property names are ordinary names: the members that every
  object inherits from \<^verbatim>\<open>Object.prototype\<close> are not modelled.
\<close>

datatype json =
    JNull
  | JBool bool
  | JNumber int
  | JString string
  | JArray "json list"
  | JObject "(string \<times> json) list"

type_synonym obj = "(string \<times> json) list"
type_synonym jsvalue = "json option"

text \<open>
  An array index is a canonical decimal numeral below \<open>2^32 - 1\<close>. JavaScript lists
  the array-index properties of an object first, in ascending order, and the other string
  properties after them, in the order of their creation.
\<close>

definition is_digit :: "char \<Rightarrow> bool" where
  "is_digit c = (48 \<le> (of_char c :: nat) \<and> (of_char c :: nat) \<le> 57)"

definition digits_val :: "string \<Rightarrow> nat" where
  "digits_val s = foldl (\<lambda>n c. 10 * n + ((of_char c :: nat) - 48)) 0 s"

definition array_index :: "string \<Rightarrow> nat option" where
  "array_index k =
     (if k \<noteq> [] \<and> list_all is_digit k \<and> (k = ''0'' \<or> hd k \<noteq> CHR ''0'')
         \<and> digits_val k < 4294967295
      then Some (digits_val k) else None)"

fun place_index :: "nat \<Rightarrow> string \<Rightarrow> json \<Rightarrow> obj \<Rightarrow> obj" where
  "place_index i k v [] = [(k, v)]"
| "place_index i k v ((k', v') # rest) =
     (case array_index k' of
        Some j \<Rightarrow> if j < i then (k', v') # place_index i k v rest
                  else (k, v) # (k', v') # rest
      | None \<Rightarrow> (k, v) # (k', v') # rest)"

text \<open>\<^verbatim>\<open>o[k]\<close>: the value of an own property, \<^verbatim>\<open>undefined\<close> when there is none.\<close>

definition obj_get :: "obj \<Rightarrow> string \<Rightarrow> jsvalue" where
  "obj_get ob k = map_of ob k"

text \<open>
  \<^verbatim>\<open>o[k] = v\<close>: an existing property keeps its place and takes the value; a new one is
  created, at the end unless its name is an array index.
\<close>

definition obj_set :: "string \<Rightarrow> json \<Rightarrow> obj \<Rightarrow> obj" where
  "obj_set k v ob =
     (if map_of ob k \<noteq> None then AList.update k v ob
      else case array_index k of
             Some i \<Rightarrow> place_index i k v ob
           | None \<Rightarrow> ob @ [(k, v)])"

fun show_nat :: "nat \<Rightarrow> string" where
  "show_nat n =
     (if n < 10 then [char_of (48 + n)]
      else show_nat (n div 10) @ [char_of (48 + n mod 10)])"

declare show_nat.simps [simp del]

text \<open>
  The own enumerable properties of \<^verbatim>\<open>Object(v)\<close>, which is what \<^verbatim>\<open>Object.assign\<close> reads from
  a source: the entries of an object, the elements of an array under their indices, the
  characters of a string under theirs, and nothing for a number, a boolean or null.
\<close>

definition own_entries :: "json \<Rightarrow> (string \<times> json) list" where
  "own_entries v =
     (case v of
        JObject kvs \<Rightarrow> kvs
      | JArray xs \<Rightarrow> zip (map show_nat [0..<length xs]) xs
      | JString s \<Rightarrow> zip (map show_nat [0..<length s]) (map (\<lambda>c. JString [c]) s)
      | _ \<Rightarrow> [])"

text \<open>\<^verbatim>\<open>Object.assign(target, source)\<close>, the source given by its entries.\<close>

definition Object_assign :: "obj \<Rightarrow> (string \<times> json) list \<Rightarrow> obj" where
  "Object_assign target src = fold (\<lambda>(k, v) acc. obj_set k v acc) src target"

text \<open>\<^verbatim>\<open>s.endsWith(suffix)\<close>\<close>

definition endsWith :: "string \<Rightarrow> string \<Rightarrow> bool" where
  "endsWith s suf = (length suf \<le> length s \<and> drop (length s - length suf) s = suf)"

section \<open>The file system and the JSON codec\<close>

text \<open>
  The store touches one path and its directory. The text of a file is identified with what
  \<^verbatim>\<open>JSON.parse\<close> makes of it: a syntax error, or a value; \<^verbatim>\<open>JSON.stringify\<close> of a value gives
  a text that parses back to it.
\<close>

datatype content = Malformed | Encodes json

definition JSON_parse :: "content \<Rightarrow> json option" where
  "JSON_parse c = (case c of Malformed \<Rightarrow> None | Encodes v \<Rightarrow> Some v)"

definition JSON_stringify :: "json \<Rightarrow> content" where
  "JSON_stringify v = Encodes v"

text \<open>
  What the path names: nothing, a regular file (with its read and write permissions and
  its text), a directory, or a symbolic link whose target lies in a directory that does
  not exist. The directory of the path is absent (and then can or cannot be created) or
  present.
\<close>

datatype entry =
    Missing
  | File bool bool content
  | Directory
  | Dangling

datatype filesys = DirAbsent bool | DirPresent entry

datatype errno = ENOENT | EACCES | EISDIR

fun existsSync :: "filesys \<Rightarrow> bool" where
  "existsSync (DirPresent (File r w c)) = True"
| "existsSync (DirPresent Directory) = True"
| "existsSync _ = False"

fun readFileSync :: "filesys \<Rightarrow> errno + content" where
  "readFileSync (DirPresent (File r w c)) = (if r then Inr c else Inl EACCES)"
| "readFileSync (DirPresent Directory) = Inl EISDIR"
| "readFileSync _ = Inl ENOENT"

fun writeFileSync :: "content \<Rightarrow> filesys \<Rightarrow> errno + filesys" where
  "writeFileSync c (DirAbsent creatable) = Inl ENOENT"
| "writeFileSync c (DirPresent Missing) = Inr (DirPresent (File True True c))"
| "writeFileSync c (DirPresent (File r w old)) =
     (if w then Inr (DirPresent (File r w c)) else Inl EACCES)"
| "writeFileSync c (DirPresent Directory) = Inl EISDIR"
| "writeFileSync c (DirPresent Dangling) = Inl ENOENT"

text \<open>\<^verbatim>\<open>fs.mkdirSync(dir, { recursive: true })\<close>\<close>

fun mkdirSync :: "filesys \<Rightarrow> errno + filesys" where
  "mkdirSync (DirAbsent creatable) =
     (if creatable then Inr (DirPresent Missing) else Inl EACCES)"
| "mkdirSync (DirPresent e) = Inr (DirPresent e)"

text \<open>The text of the file at the path, whatever its permissions.\<close>

fun file_content :: "filesys \<Rightarrow> content option" where
  "file_content (DirPresent (File r w c)) = Some c"
| "file_content _ = None"

section \<open>Drafts and the schema\<close>

text \<open>A draft value is \<^verbatim>\<open>{ preset: T } & M\<close>: the preset and the other (meta) fields.\<close>

record Value =
  preset :: json
  meta :: obj

type_synonym Draft = "(string \<times> Value) list"

text \<open>\<^verbatim>\<open>Preset(data, meta)\<close> is \<^verbatim>\<open>Object.assign(meta ?? {}, { preset: data })\<close>.\<close>

definition Preset :: "json \<Rightarrow> obj option \<Rightarrow> Value" where
  "Preset data m =
     \<lparr>preset = data,
      meta = filter (\<lambda>(k, v). k \<noteq> ''preset'') (case m of None \<Rightarrow> [] | Some ob \<Rightarrow> ob)\<rparr>"

text \<open>
  \<^verbatim>\<open>Schema.m_flatten\<close>: a reduce over \<^verbatim>\<open>Object.entries(draft)\<close> that sets
  \<^verbatim>\<open>acc[key] = value.preset\<close> on an object that starts empty.
\<close>

definition m_flatten :: "Draft \<Rightarrow> obj" where
  "m_flatten draft = fold (\<lambda>(k, v) acc. obj_set k (preset v) acc) draft []"

text \<open>
  Objects that the program mutates or shares live in a heap and are named by references.
  The schema holds a reference to its flattened object.
\<close>

record Schema =
  m_draft :: Draft
  flattened :: nat

section \<open>Options\<close>

text \<open>
  \<^verbatim>\<open>Options.IConfig\<close>. The caller's options have optional fields (\<open>bool option\<close>);
  \<^verbatim>\<open>Required<IConfig>\<close>, which the store keeps, has them all (\<open>bool\<close>).
\<close>

record 'b IConfig =
  path :: string
  useCache :: 'b
  allowCreate :: 'b
  exposedEvents :: 'b

text \<open>
  \<^verbatim>\<open>Object.assign({}, Options.Default, opts)\<close> with the defaults \<^verbatim>\<open>useCache: false\<close>,
  \<^verbatim>\<open>allowCreate: true\<close>, \<^verbatim>\<open>exposedEvents: false\<close>.
\<close>

definition assign_defaults :: "bool option IConfig \<Rightarrow> bool IConfig" where
  "assign_defaults opts =
     \<lparr>path = path opts,
      useCache = (case useCache opts of None \<Rightarrow> False | Some b \<Rightarrow> b),
      allowCreate = (case allowCreate opts of None \<Rightarrow> True | Some b \<Rightarrow> b),
      exposedEvents = (case exposedEvents opts of None \<Rightarrow> False | Some b \<Rightarrow> b)\<rparr>"

section \<open>The world: disk, heap and the trace of effects\<close>

datatype Alteration = Alteration (key: string) (val: jsvalue)

text \<open>What a listener receives: the batch for \<^verbatim>\<open>change\<close>, one value for \<^verbatim>\<open>change:<key>\<close>.\<close>

datatype payload = Batch "Alteration list" | Single jsvalue

text \<open>
  Every call of the file system and every \<^verbatim>\<open>emit\<close> of the emitter is recorded, in order.
  Listeners are outside the model: an emission is the record of its name and payload.
\<close>

datatype effect =
    Exists
  | Mkdir
  | ReadFile
  | WriteFile content
  | Emit string payload

record world =
  disk :: filesys
  heap :: "nat \<Rightarrow> obj"
  next_ref :: nat
  trace :: "effect list"

definition log :: "effect \<Rightarrow> world \<Rightarrow> world" where
  "log e w = w\<lparr>trace := trace w @ [e]\<rparr>"

text \<open>A new object: its reference is one that no object has yet.\<close>

definition alloc :: "obj \<Rightarrow> world \<Rightarrow> nat \<times> world" where
  "alloc ob w =
     (next_ref w, w\<lparr>heap := (heap w)(next_ref w := ob), next_ref := Suc (next_ref w)\<rparr>)"

text \<open>The effects recorded between two worlds, and the emissions among them.\<close>

definition since :: "world \<Rightarrow> world \<Rightarrow> effect list" where
  "since w w' = drop (length (trace w)) (trace w')"

fun is_Emit :: "effect \<Rightarrow> bool" where
  "is_Emit (Emit n p) = True"
| "is_Emit _ = False"

fun is_WriteFile :: "effect \<Rightarrow> bool" where
  "is_WriteFile (WriteFile c) = True"
| "is_WriteFile _ = False"

section \<open>The configuration wrapper\<close>

datatype error = BadExtension | ResourceMissing | SystemError errno | TypeError

record ConfigWrapper =
  m_cache :: "nat option"
  m_schema :: Schema
  m_options :: "bool IConfig"

text \<open>\<^verbatim>\<open>m_prepareResource\<close>\<close>

definition m_prepareResource :: "ConfigWrapper \<Rightarrow> world \<Rightarrow> (error + unit) \<times> world" where
  "m_prepareResource this w =
     (let w1 = log Exists w in
      if existsSync (disk w1) then (Inr (), w1)
      else if \<not> allowCreate (m_options this) then (Inl ResourceMissing, w1)
      else let w2 = log Mkdir w1 in
           case mkdirSync (disk w2) of
             Inl e \<Rightarrow> (Inl (SystemError e), w2)
           | Inr d \<Rightarrow> (Inr (), w2\<lparr>disk := d\<rparr>))"

text \<open>
  \<^verbatim>\<open>m_readFile\<close>: a new object that copies the flattened schema; the parsed file is
  assigned onto it; whatever is thrown inside \<^verbatim>\<open>try\<close> is caught and the copy returned.
\<close>

definition m_readFile :: "ConfigWrapper \<Rightarrow> world \<Rightarrow> nat \<times> world" where
  "m_readFile this w =
     (let (a, w1) = alloc (Object_assign [] (heap w (flattened (m_schema this)))) w;
          w2 = log ReadFile w1 in
      case readFileSync (disk w2) of
        Inl e \<Rightarrow> (a, w2)
      | Inr text \<Rightarrow>
          (case JSON_parse text of
             None \<Rightarrow> (a, w2)
           | Some v \<Rightarrow>
               (a, w2\<lparr>heap := (heap w2)(a := Object_assign (heap w2 a) (own_entries v))\<rparr>)))"

text \<open>
  \<^verbatim>\<open>m_writeFile\<close>. The retry is a call of \<^verbatim>\<open>m_writeFile\<close> itself, so the function is
  recursive and need not return: \<open>None\<close> is the run that never returns.
\<close>

partial_function (option) m_writeFile ::
    "ConfigWrapper \<Rightarrow> nat \<Rightarrow> world \<Rightarrow> ((error + unit) \<times> world) option" where
  "m_writeFile this next w =
     (let text = JSON_stringify (JObject (heap w next));
          w1 = log (WriteFile text) w in
      case writeFileSync text (disk w1) of
        Inr d \<Rightarrow> Some (Inr (), w1\<lparr>disk := d\<rparr>)
      | Inl err \<Rightarrow>
          if err \<noteq> ENOENT then Some (Inl (SystemError err), w1)
          else (case m_prepareResource this w1 of
                  (Inl e, w2) \<Rightarrow> Some (Inl e, w2)
                | (Inr u, w2) \<Rightarrow> m_writeFile this next w2))"

text \<open>\<^verbatim>\<open>m_emitAlterations\<close>\<close>

definition m_emitAlterations :: "ConfigWrapper \<Rightarrow> Alteration list \<Rightarrow> world \<Rightarrow> world" where
  "m_emitAlterations this alterations w =
     (let w1 = log (Emit ''change'' (Batch alterations)) w in
      if \<not> exposedEvents (m_options this) then w1
      else fold (\<lambda>alter. log (Emit (''change:'' @ key alter) (Single (val alter))))
             alterations w1)"

text \<open>\<^verbatim>\<open>m_prepareCache\<close>\<close>

definition m_prepareCache :: "ConfigWrapper \<Rightarrow> world \<Rightarrow> ConfigWrapper \<times> world" where
  "m_prepareCache this w =
     (if useCache (m_options this)
      then let (a, w1) = m_readFile this w in (this\<lparr>m_cache := Some a\<rparr>, w1)
      else (this, w))"

text \<open>The getter \<^verbatim>\<open>m_current\<close>; \<open>None\<close> is the \<^verbatim>\<open>null\<close> that \<^verbatim>\<open>m_cache\<close> starts with.\<close>

definition m_current :: "ConfigWrapper \<Rightarrow> world \<Rightarrow> nat option \<times> world" where
  "m_current this w =
     (if useCache (m_options this) then (m_cache this, w)
      else let (a, w1) = m_readFile this w in (Some a, w1))"

text \<open>The constructor, reached through \<^verbatim>\<open>Config.from\<close>.\<close>

definition Schema_new :: "Draft \<Rightarrow> world \<Rightarrow> Schema \<times> world" where
  "Schema_new draft w =
     (let (a, w1) = alloc (m_flatten draft) w in (\<lparr>m_draft = draft, flattened = a\<rparr>, w1))"

definition Config_from ::
    "Draft \<Rightarrow> bool option IConfig \<Rightarrow> world \<Rightarrow> (error + ConfigWrapper) \<times> world" where
  "Config_from draft opts w =
     (let (schema, w1) = Schema_new draft w;
          this = \<lparr>m_cache = None, m_schema = schema, m_options = assign_defaults opts\<rparr> in
      if \<not> endsWith (path (m_options this)) ''.json'' then (Inl BadExtension, w1)
      else case m_prepareResource this w1 of
             (Inl e, w2) \<Rightarrow> (Inl e, w2)
           | (Inr u, w2) \<Rightarrow> (let (this', w3) = m_prepareCache this w2 in (Inr this', w3)))"

text \<open>
  \<^verbatim>\<open>read()\<close> gives the reference of the configuration object and \<^verbatim>\<open>read(key)\<close> the value
  \<^verbatim>\<open>conf[key]\<close>, which throws a \<^verbatim>\<open>TypeError\<close> when \<^verbatim>\<open>conf\<close> is null.
\<close>

definition read :: "ConfigWrapper \<Rightarrow> world \<Rightarrow> nat option \<times> world" where
  "read this w = m_current this w"

definition read_key :: "ConfigWrapper \<Rightarrow> string \<Rightarrow> world \<Rightarrow> (error + jsvalue) \<times> world" where
  "read_key this k w =
     (let (conf, w1) = m_current this w in
      case conf of
        None \<Rightarrow> (Inl TypeError, w1)
      | Some a \<Rightarrow> (Inr (obj_get (heap w1 a) k), w1))"

text \<open>\<^verbatim>\<open>alter(key, value)\<close>\<close>

definition alter ::
    "ConfigWrapper \<Rightarrow> string \<Rightarrow> json \<Rightarrow> world \<Rightarrow> ((error + unit) \<times> world) option" where
  "alter this k v w =
     (let (conf, w1) = m_current this w in
      case conf of
        None \<Rightarrow> Some (Inl TypeError, w1)
      | Some a \<Rightarrow>
          (let w2 = w1\<lparr>heap := (heap w1)(a := obj_set k v (heap w1 a))\<rparr> in
           case m_writeFile this a w2 of
             None \<Rightarrow> None
           | Some (Inl e, w3) \<Rightarrow> Some (Inl e, w3)
           | Some (Inr u, w3) \<Rightarrow>
               Some (Inr (), m_emitAlterations this [Alteration k (Some v)] w3)))"

text \<open>\<^verbatim>\<open>overwrite(next)\<close>; the wrapper is returned because \<^verbatim>\<open>m_cache\<close> may be assigned.\<close>

definition overwrite ::
    "ConfigWrapper \<Rightarrow> nat \<Rightarrow> world \<Rightarrow> ((error + unit) \<times> ConfigWrapper \<times> world) option" where
  "overwrite this next w =
     (let this1 = (if useCache (m_options this) then this\<lparr>m_cache := Some next\<rparr> else this) in
      case m_writeFile this1 next w of
        None \<Rightarrow> None
      | Some (Inl e, w1) \<Rightarrow> Some (Inl e, this1, w1)
      | Some (Inr u, w1) \<Rightarrow>
          (let alterations = map (\<lambda>(k, v). Alteration k (Some v)) (heap w1 next) in
           Some (Inr (), this1, m_emitAlterations this1 alterations w1)))"

text \<open>\<^verbatim>\<open>reset()\<close>\<close>

definition reset ::
    "ConfigWrapper \<Rightarrow> world \<Rightarrow> ((error + unit) \<times> ConfigWrapper \<times> world) option" where
  "reset this w =
     (let (a, w1) = alloc (Object_assign [] (heap w (flattened (m_schema this)))) w in
      overwrite this a w1)"

text \<open>
  \<^verbatim>\<open>trigger(...keys)\<close>; \<^verbatim>\<open>conf[key]\<close> is evaluated once for each key, so a null \<^verbatim>\<open>conf\<close>
  throws only when there is a key.
\<close>

definition trigger :: "ConfigWrapper \<Rightarrow> string list \<Rightarrow> world \<Rightarrow> (error + unit) \<times> world" where
  "trigger this keys w =
     (let (conf, w1) = m_current this w in
      case conf of
        None \<Rightarrow> if keys = [] then (Inr (), m_emitAlterations this [] w1)
                else (Inl TypeError, w1)
      | Some a \<Rightarrow>
          (Inr (), m_emitAlterations this
                     (map (\<lambda>k. Alteration k (obj_get (heap w1 a) k)) keys) w1))"

section \<open>What a read gives\<close>

text \<open>
  The object that the body of \<^verbatim>\<open>m_readFile\<close> builds from the flattened schema and the
  disk, apart from where it is stored: the proofs speak of it by this name
  (lemma \<open>m_readFile_closed\<close> states that it is what \<^verbatim>\<open>m_readFile\<close> allocates).
\<close>

definition merged :: "obj \<Rightarrow> filesys \<Rightarrow> obj" where
  "merged flat d =
     (let copy = Object_assign [] flat in
      case readFileSync d of
        Inl e \<Rightarrow> copy
      | Inr text \<Rightarrow> (case JSON_parse text of
                       None \<Rightarrow> copy
                     | Some v \<Rightarrow> Object_assign copy (own_entries v)))"

section \<open>The states a program can reach\<close>

text \<open>
  A store is made by the constructor and used through its methods. The caller also makes
  objects of its own and assigns to properties of objects it holds (the flattened schema
  is private and never handed out), and the file system changes under other hands.
  The flag \<open>complete\<close> restricts the callers: when it is set, every object given to
  \<^verbatim>\<open>overwrite\<close> has every key of the draft.
\<close>

inductive reachable :: "bool \<Rightarrow> Draft \<Rightarrow> ConfigWrapper \<Rightarrow> world \<Rightarrow> bool"
  for complete :: bool and draft :: Draft where
  constructed:
    "Config_from draft opts w0 = (Inr this, w) \<Longrightarrow> reachable complete draft this w"
| did_read:
    "reachable complete draft this w \<Longrightarrow> read this w = (r, w') \<Longrightarrow>
     reachable complete draft this w'"
| did_read_key:
    "reachable complete draft this w \<Longrightarrow> read_key this k w = (rk, w') \<Longrightarrow>
     reachable complete draft this w'"
| did_alter:
    "reachable complete draft this w \<Longrightarrow> alter this k v w = Some (ra, w') \<Longrightarrow>
     reachable complete draft this w'"
| did_overwrite:
    "reachable complete draft this w \<Longrightarrow> next < next_ref w \<Longrightarrow>
     next \<noteq> flattened (m_schema this) \<Longrightarrow>
     (complete \<Longrightarrow> fst ` set draft \<subseteq> fst ` set (heap w next)) \<Longrightarrow>
     overwrite this next w = Some (ro, this', w') \<Longrightarrow> reachable complete draft this' w'"
| did_reset:
    "reachable complete draft this w \<Longrightarrow> reset this w = Some (ro, this', w') \<Longrightarrow>
     reachable complete draft this' w'"
| did_trigger:
    "reachable complete draft this w \<Longrightarrow> trigger this keys w = (rt, w') \<Longrightarrow>
     reachable complete draft this w'"
| caller_new:
    "reachable complete draft this w \<Longrightarrow> alloc ob w = (a, w') \<Longrightarrow>
     reachable complete draft this w'"
| caller_assign:
    "reachable complete draft this w \<Longrightarrow> a < next_ref w \<Longrightarrow>
     a \<noteq> flattened (m_schema this) \<Longrightarrow>
     reachable complete draft this (w\<lparr>heap := (heap w)(a := obj_set k v (heap w a))\<rparr>)"
| external:
    "reachable complete draft this w \<Longrightarrow> reachable complete draft this (w\<lparr>disk := d\<rparr>)"

section \<open>The invariant of the reachable states\<close>


section \<open>The data of the test suite\<close>

text \<open>The draft and the options of \<^verbatim>\<open>index.spec.ts\<close>, and a world with nothing in it.\<close>

definition test_draft :: Draft where
  "test_draft =
     [(''animal'', Preset (JString ''unicorn'') None),
      (''fruit'', Preset (JString ''apple'') None),
      (''person'', Preset (JObject [(''name'', JString ''John''), (''age'', JNumber 21)]) None),
      (''list'', Preset (JArray [JNumber 1, JNumber 2, JNumber 3, JNumber 4, JNumber 5]) None)]"

definition test_presets :: obj where
  "test_presets =
     [(''animal'', JString ''unicorn''),
      (''fruit'', JString ''apple''),
      (''person'', JObject [(''name'', JString ''John''), (''age'', JNumber 21)]),
      (''list'', JArray [JNumber 1, JNumber 2, JNumber 3, JNumber 4, JNumber 5])]"

definition test_opts :: "bool option IConfig" where
  "test_opts =
     \<lparr>path = ''.cache/test.json'', useCache = None, allowCreate = None,
      exposedEvents = Some True\<rparr>"

definition cached_opts :: "bool option IConfig" where
  "cached_opts = test_opts\<lparr>useCache := Some True\<rparr>"

definition empty_world :: world where
  "empty_world = \<lparr>disk = DirAbsent True, heap = (\<lambda>a. []), next_ref = 0, trace = []\<rparr>"

text \<open>The stores that the constructor builds in the empty world.\<close>

definition test_store :: ConfigWrapper where
  "test_store =
     \<lparr>m_cache = None,
      m_schema = \<lparr>m_draft = test_draft, flattened = 0\<rparr>,
      m_options = \<lparr>path = ''.cache/test.json'', useCache = False, allowCreate = True,
                   exposedEvents = True\<rparr>\<rparr>"

definition cached_store :: ConfigWrapper where
  "cached_store =
     \<lparr>m_cache = Some 1,
      m_schema = \<lparr>m_draft = test_draft, flattened = 0\<rparr>,
      m_options = \<lparr>path = ''.cache/test.json'', useCache = True, allowCreate = True,
                   exposedEvents = True\<rparr>\<rparr>"

text \<open>The worlds in which the constructor leaves them.\<close>

definition test_world :: world where
  "test_world =
     \<lparr>disk = DirPresent Missing, heap = (\<lambda>a. [])(0 := test_presets), next_ref = 1,
      trace = [Exists, Mkdir]\<rparr>"

definition cached_world :: world where
  "cached_world =
     \<lparr>disk = DirPresent Missing, heap = (\<lambda>a. [])(0 := test_presets, 1 := test_presets),
      next_ref = 2, trace = [Exists, Mkdir, ReadFile]\<rparr>"

text \<open>An object that a caller hands to \<^verbatim>\<open>overwrite\<close>, and the world that holds it.\<close>

definition next_conf :: obj where
  "next_conf =
     [(''animal'', JString ''cat''),
      (''fruit'', JString ''banana''),
      (''person'', JObject [(''name'', JString ''Jane''), (''age'', JNumber 25)]),
      (''list'', JArray [JNumber 0, JNumber 1, JNumber 2])]"

definition given_world :: world where
  "given_world = snd (alloc next_conf test_world)"

definition cached_given_world :: world where
  "cached_given_world = snd (alloc next_conf cached_world)"

text \<open>The worlds after one call on the store of the test suite.\<close>

definition after_alter :: world where
  "after_alter = snd (the (alter test_store ''fruit'' (JString ''banana'') test_world))"

definition after_overwrite :: world where
  "after_overwrite = snd (snd (the (overwrite test_store 1 given_world)))"

definition after_trigger :: world where
  "after_trigger = snd (trigger test_store [''fruit'', ''animal''] test_world)"
















section \<open>Objects: lookup after update, and the keys\<close>

lemma map_of_place_index:
  "map_of ob k = None \<Longrightarrow> map_of (place_index i k v ob) x = ((map_of ob)(k \<mapsto> v)) x"
  by (induction ob) (auto split: option.splits if_splits)

lemma map_of_obj_set: "map_of (obj_set k v ob) = (map_of ob)(k \<mapsto> v)"
proof (rule ext)
  fix x
  show "map_of (obj_set k v ob) x = ((map_of ob)(k \<mapsto> v)) x"
    by (auto simp: obj_set_def update_conv' map_of_place_index map_add_def split: option.splits)
qed

lemma keys_place_index:
  assumes "map_of ob k = None"
  shows "set (map fst (place_index i k v ob)) = insert k (set (map fst ob))"
proof -
  have "map_of (place_index i k v ob) = (map_of ob)(k \<mapsto> v)"
    using assms by (auto simp: map_of_place_index)
  then have "dom (map_of (place_index i k v ob)) = insert k (dom (map_of ob))"
    by simp
  then show ?thesis by (simp add: dom_map_of_conv_image_fst)
qed

lemma distinct_place_index:
  "map_of ob k = None \<Longrightarrow> distinct (map fst ob) \<Longrightarrow> distinct (map fst (place_index i k v ob))"
proof (induction ob)
  case Nil
  then show ?case by simp
next
  case (Cons p ob)
  obtain k' v' where p: "p = (k', v')" by (cases p)
  from Cons.prems p have ne: "k' \<noteq> k" and none: "map_of ob k = None"
    by (auto split: if_splits)
  from Cons.prems p have d: "distinct (map fst ob)" and notin: "k' \<notin> set (map fst ob)"
    by auto
  from none have knotin: "k \<notin> set (map fst ob)"
    by (simp add: map_of_eq_None_iff)
  have ih: "distinct (map fst (place_index i k v ob))"
    using Cons.IH none d by simp
  have "k' \<notin> set (map fst (place_index i k v ob))"
    using notin ne by (simp only: keys_place_index [OF none]) auto
  with ih d notin knotin ne show ?case
    by (auto simp: p split: option.splits)
qed

lemma distinct_obj_set:
  "distinct (map fst ob) \<Longrightarrow> distinct (map fst (obj_set k v ob))"
  by (auto simp: obj_set_def distinct_update distinct_place_index map_of_eq_None_iff split: option.splits)


lemma map_of_Object_assign:
  "map_of (Object_assign target src) = map_of target ++ map_of (rev src)"
  unfolding Object_assign_def
  by (induction src arbitrary: target) (auto simp: map_of_obj_set)

lemma distinct_Object_assign:
  "distinct (map fst target) \<Longrightarrow> distinct (map fst (Object_assign target src))"
  unfolding Object_assign_def
  by (induction src arbitrary: target) (auto simp: distinct_obj_set)


lemma map_of_rev_distinct:
  "distinct (map fst ob) \<Longrightarrow> map_of (rev ob) = map_of ob"
  by (metis distinct_rev map_of_inject_set rev_map set_rev)

lemma map_of_copy:
  "distinct (map fst ob) \<Longrightarrow> map_of (Object_assign [] ob) = map_of ob"
  by (simp add: map_of_Object_assign map_of_rev_distinct)


section \<open>The writer in closed form\<close>

text \<open>
  With a dangling link at the path and creation allowed, every write fails for a missing
  path, every preparation succeeds, and the writer calls itself for ever.
\<close>

lemma m_writeFile_dangling:
  assumes "disk w = DirPresent Dangling" and "allowCreate (m_options this)"
  shows "m_writeFile this a w = None"
proof -
  have "\<not> (disk w = DirPresent Dangling \<and> allowCreate (m_options this))"
    if ret: "m_writeFile this a w = Some y" for y
  proof (rule m_writeFile.raw_induct
      [where P = "\<lambda>this a w y. \<not> (disk w = DirPresent Dangling \<and> allowCreate (m_options this))",
        OF _ ret])
    fix f :: "ConfigWrapper \<Rightarrow> nat \<Rightarrow> world \<Rightarrow> ((error + unit) \<times> world) option"
    fix this a w y
    assume IH: "\<And>this a w y. f this a w = Some y \<Longrightarrow>
                  \<not> (disk w = DirPresent Dangling \<and> allowCreate (m_options this))"
    assume eq: "(let text = JSON_stringify (JObject (heap w a));
                     w1 = log (WriteFile text) w in
                 case writeFileSync text (disk w1) of
                   Inl err \<Rightarrow>
                     if err \<noteq> ENOENT then Some (Inl (SystemError err), w1)
                     else (case m_prepareResource this w1 of
                             (Inl e, w2) \<Rightarrow> Some (Inl e, w2)
                           | (Inr u, w2) \<Rightarrow> f this a w2)
                 | Inr d \<Rightarrow> Some (Inr (), w1\<lparr>disk := d\<rparr>)) = Some y"
    show "\<not> (disk w = DirPresent Dangling \<and> allowCreate (m_options this))"
    proof
      assume d: "disk w = DirPresent Dangling \<and> allowCreate (m_options this)"
      let ?w2 = "(log Mkdir (log Exists (log (WriteFile (JSON_stringify (JObject (heap w a)))) w)))
                   \<lparr>disk := DirPresent Dangling\<rparr>"
      from d eq have "f this a ?w2 = Some y"
        by (simp add: log_def m_prepareResource_def Let_def)
      then have "\<not> (disk ?w2 = DirPresent Dangling \<and> allowCreate (m_options this))"
        by (rule IH)
      with d show False by (simp add: log_def)
    qed
  qed
  with assms show ?thesis by (cases "m_writeFile this a w") auto
qed

lemma m_writeFile_closed:
  "m_writeFile this a w =
     (let text = JSON_stringify (JObject (heap w a)); w1 = log (WriteFile text) w in
      case disk w of
        DirPresent Missing \<Rightarrow> Some (Inr (), w1\<lparr>disk := DirPresent (File True True text)\<rparr>)
      | DirPresent (File r wr old) \<Rightarrow>
          if wr then Some (Inr (), w1\<lparr>disk := DirPresent (File r wr text)\<rparr>)
          else Some (Inl (SystemError EACCES), w1)
      | DirPresent Directory \<Rightarrow> Some (Inl (SystemError EISDIR), w1)
      | DirPresent Dangling \<Rightarrow>
          if allowCreate (m_options this) then None
          else Some (Inl ResourceMissing, log Exists w1)
      | DirAbsent creatable \<Rightarrow>
          if \<not> allowCreate (m_options this) then Some (Inl ResourceMissing, log Exists w1)
          else if \<not> creatable then Some (Inl (SystemError EACCES), log Mkdir (log Exists w1))
          else Some (Inr (), (log (WriteFile text) (log Mkdir (log Exists w1)))
                               \<lparr>disk := DirPresent (File True True text)\<rparr>))"
proof (cases "disk w")
  case (DirAbsent creatable)
  then show ?thesis
    apply (subst m_writeFile.simps)
    apply (simp add: Let_def log_def m_prepareResource_def)
    apply (subst m_writeFile.simps)
    apply (simp add: Let_def log_def m_prepareResource_def)
    done
next
  case (DirPresent e)
  show ?thesis
  proof (cases e)
    case Dangling
    with DirPresent show ?thesis
      apply (cases "allowCreate (m_options this)")
       apply (simp add: m_writeFile_dangling Let_def)
      apply (subst m_writeFile.simps)
      apply (simp add: Let_def log_def m_prepareResource_def)
      done
  qed (use DirPresent in \<open>subst m_writeFile.simps, simp add: Let_def log_def\<close>)+
qed

text \<open>The store of the test suite, with a dangling link at its path: the writer never returns.\<close>

lemma m_writeFile_dangling_example:
  "m_writeFile test_store 1 (given_world\<lparr>disk := DirPresent Dangling\<rparr>) = None"
  by (rule m_writeFile_dangling) (simp_all add: test_store_def)

section \<open>The other methods in closed form\<close>

lemma fold_log:
  "fold (\<lambda>x. log (f x)) xs w = w\<lparr>trace := trace w @ map f xs\<rparr>"
  by (induction xs arbitrary: w) (simp_all add: log_def)

lemma m_emitAlterations_closed:
  "m_emitAlterations this B w =
     w\<lparr>trace := trace w @ Emit ''change'' (Batch B) #
         (if exposedEvents (m_options this)
          then map (\<lambda>alter. Emit (''change:'' @ key alter) (Single (val alter))) B
          else [])\<rparr>"
  by (simp add: m_emitAlterations_def Let_def fold_log) (simp add: log_def)

lemma since_append: "trace w' = trace w @ ts \<Longrightarrow> since w w' = ts"
  by (simp add: since_def)

lemma m_readFile_closed:
  "m_readFile this w =
     (next_ref w,
      w\<lparr>heap := (heap w)(next_ref w := merged (heap w (flattened (m_schema this))) (disk w)),
        next_ref := Suc (next_ref w),
        trace := trace w @ [ReadFile]\<rparr>)"
  by (simp add: m_readFile_def merged_def alloc_def log_def Let_def
      split: sum.splits option.splits)

lemma map_of_merged:
  "distinct (map fst flat) \<Longrightarrow>
   map_of (merged flat d) =
     (case readFileSync d of
        Inl e \<Rightarrow> map_of flat
      | Inr text \<Rightarrow>
          (case JSON_parse text of
             None \<Rightarrow> map_of flat
           | Some v \<Rightarrow> map_of flat ++ map_of (rev (own_entries v))))"
  by (simp add: merged_def Let_def map_of_Object_assign map_of_rev_distinct
      split: sum.splits option.splits)

lemma keys_Object_assign:
  "fst ` set (Object_assign target src) = fst ` set target \<union> fst ` set src"
proof -
  have "dom (map_of (Object_assign target src)) = dom (map_of target) \<union> dom (map_of (rev src))"
    by (simp add: map_of_Object_assign Un_commute)
  then show ?thesis by (simp add: dom_map_of_conv_image_fst)
qed


lemma m_prepareResource_closed:
  "m_prepareResource this w =
     (if existsSync (disk w) then (Inr (), w\<lparr>trace := trace w @ [Exists]\<rparr>)
      else if \<not> allowCreate (m_options this)
        then (Inl ResourceMissing, w\<lparr>trace := trace w @ [Exists]\<rparr>)
      else case mkdirSync (disk w) of
             Inl e \<Rightarrow> (Inl (SystemError e), w\<lparr>trace := trace w @ [Exists, Mkdir]\<rparr>)
           | Inr d \<Rightarrow> (Inr (), w\<lparr>trace := trace w @ [Exists, Mkdir], disk := d\<rparr>))"
  by (simp add: m_prepareResource_def log_def Let_def split: sum.splits)

lemma m_writeFile_facts:
  assumes "m_writeFile this a w = Some (r, w')"
  shows "heap w' = heap w" and "next_ref w' = next_ref w"
    and "\<exists>ts. trace w' = trace w @ WriteFile (JSON_stringify (JObject (heap w a))) # ts
            \<and> filter is_Emit ts = []
            \<and> (r = Inr () \<longrightarrow> last (trace w') = WriteFile (JSON_stringify (JObject (heap w a))))"
    and "r = Inr () \<Longrightarrow> file_content (disk w') = Some (JSON_stringify (JObject (heap w a)))"
    and "r \<noteq> Inr () \<Longrightarrow> file_content (disk w') = file_content (disk w)"
  using assms
  by (auto simp: m_writeFile_closed Let_def log_def split: filesys.splits entry.splits if_splits)

lemma alter_Some:
  assumes "alter this k v w = Some (r, w')" and "m_current this w = (Some a, w1)"
  shows "\<exists>w3. m_writeFile this a (w1\<lparr>heap := (heap w1)(a := obj_set k v (heap w1 a))\<rparr>) = Some (r, w3)
           \<and> w' = (if r = Inr () then m_emitAlterations this [Alteration k (Some v)] w3 else w3)"
  using assms
  by (auto simp: alter_def Let_def split: option.splits sum.splits prod.splits)

lemma overwrite_Some:
  assumes "overwrite this next w = Some (r, this', w')"
  shows "this' = (if useCache (m_options this) then this\<lparr>m_cache := Some next\<rparr> else this)
       \<and> (\<exists>w1. m_writeFile this' next w = Some (r, w1)
           \<and> w' = (if r = Inr ()
                   then m_emitAlterations this'
                          (map (\<lambda>(k, v). Alteration k (Some v)) (heap w next)) w1
                   else w1))"
proof -
  let ?t = "if useCache (m_options this) then this\<lparr>m_cache := Some next\<rparr> else this"
  from assms obtain r1 w1 where wf: "m_writeFile ?t next w = Some (r1, w1)"
    by (auto simp: overwrite_def Let_def split: option.splits)
  from m_writeFile_facts(1) [OF wf] have h: "heap w1 = heap w" .
  from assms wf h show ?thesis
    by (cases r1) (auto simp: overwrite_def Let_def)
qed

lemma m_current_facts:
  "m_current this w = (c, w1) \<Longrightarrow>
     trace w1 = trace w @ (if useCache (m_options this) then [] else [ReadFile])
     \<and> disk w1 = disk w"
  by (auto simp: m_current_def m_readFile_closed split: if_splits)

section \<open>What each method emits\<close>

lemma alter_emits:
  assumes alt: "alter this k v w = Some (Inr (), w1)"
  shows "filter is_Emit (since w w1) =
           Emit ''change'' (Batch [Alteration k (Some v)]) #
             (if exposedEvents (m_options this)
              then [Emit (''change:'' @ k) (Single (Some v))] else [])"
proof -
  obtain c wc where cur: "m_current this w = (c, wc)" by (cases "m_current this w")
  with alt obtain a where c: "c = Some a"
    by (cases c) (auto simp: alter_def)
  from alter_Some [OF alt cur [unfolded c]] obtain w3 where
    wf: "m_writeFile this a (wc\<lparr>heap := (heap wc)(a := obj_set k v (heap wc a))\<rparr>)
           = Some (Inr (), w3)"
    and w1: "w1 = m_emitAlterations this [Alteration k (Some v)] w3" by auto
  from m_writeFile_facts(3) [OF wf] obtain ts where
    ts: "trace w3 = trace wc @ WriteFile (JSON_stringify (JObject (obj_set k v (heap wc a)))) # ts"
      "filter is_Emit ts = []" by auto
  from m_current_facts [OF cur] have
    "trace wc = trace w @ (if useCache (m_options this) then [] else [ReadFile])" by simp
  with ts w1 show ?thesis
    by (simp add: m_emitAlterations_closed since_def)
qed

lemma overwrite_emits:
  assumes ov: "overwrite this nxt w = Some (Inr (), this', w2)"
  shows "filter is_Emit (since w w2) =
           Emit ''change'' (Batch (map (\<lambda>(k, v). Alteration k (Some v)) (heap w nxt))) #
             (if exposedEvents (m_options this)
              then map (\<lambda>(k, v). Emit (''change:'' @ k) (Single (Some v))) (heap w nxt)
              else [])"
proof -
  from overwrite_Some [OF ov] obtain wm where
    t: "this' = (if useCache (m_options this) then this\<lparr>m_cache := Some nxt\<rparr> else this)"
    and wf: "m_writeFile this' nxt w = Some (Inr (), wm)"
    and w2: "w2 = m_emitAlterations this'
                    (map (\<lambda>(k, v). Alteration k (Some v)) (heap w nxt)) wm" by auto
  from m_writeFile_facts(3) [OF wf] obtain ts where
    ts: "trace wm = trace w @ WriteFile (JSON_stringify (JObject (heap w nxt))) # ts"
      "filter is_Emit ts = []" by auto
  from t have "exposedEvents (m_options this') = exposedEvents (m_options this)" by simp
  with ts w2 show ?thesis
    by (simp add: m_emitAlterations_closed since_def comp_def case_prod_unfold)
qed

lemma trigger_emits:
  assumes tr: "trigger this keys w = (Inr (), wt)"
  shows "filter is_Emit (since w wt) =
           Emit ''change'' (Batch (map (\<lambda>k. Alteration k
                    (case fst (read_key this k w) of Inl e \<Rightarrow> None | Inr x \<Rightarrow> x)) keys)) #
             (if exposedEvents (m_options this)
              then map (\<lambda>k. Emit (''change:'' @ k)
                     (Single (case fst (read_key this k w) of Inl e \<Rightarrow> None | Inr x \<Rightarrow> x))) keys
              else [])"
proof -
  obtain c wc where cur: "m_current this w = (c, wc)" by (cases "m_current this w")
  from m_current_facts [OF cur] have
    tc: "trace wc = trace w @ (if useCache (m_options this) then [] else [ReadFile])" by simp
  show ?thesis
  proof (cases c)
    case None
    with tr cur have "keys = []" and "wt = m_emitAlterations this [] wc"
      by (auto simp: trigger_def split: if_splits)
    with tc show ?thesis by (simp add: m_emitAlterations_closed since_def)
  next
    case (Some a)
    with tr cur have wt: "wt = m_emitAlterations this
                   (map (\<lambda>k. Alteration k (obj_get (heap wc a) k)) keys) wc"
      by (auto simp: trigger_def)
    from cur Some have "fst (read_key this k w) = Inr (obj_get (heap wc a) k)" for k
      by (simp add: read_key_def)
    with tc wt show ?thesis by (simp add: m_emitAlterations_closed since_def comp_def)
  qed
qed

section \<open>Runs on the data of the test suite\<close>

lemma flatten_test: "m_flatten test_draft = test_presets"
  by (simp add: m_flatten_def test_draft_def test_presets_def Preset_def obj_set_def
      array_index_def is_digit_def)

lemma copy_test: "Object_assign [] test_presets = test_presets"
  by (simp add: Object_assign_def test_presets_def obj_set_def array_index_def is_digit_def)

lemma construct_test:
  "Config_from test_draft test_opts empty_world = (Inr test_store, test_world)"
  by (simp add: Config_from_def Schema_new_def alloc_def assign_defaults_def test_opts_def
      endsWith_def m_prepareResource_closed m_prepareCache_def test_store_def flatten_test
      empty_world_def test_world_def)

lemma construct_cached:
  "Config_from test_draft cached_opts empty_world = (Inr cached_store, cached_world)"
  by (simp add: Config_from_def Schema_new_def alloc_def assign_defaults_def test_opts_def
      cached_opts_def endsWith_def m_prepareResource_closed m_prepareCache_def
      cached_store_def flatten_test m_readFile_closed merged_def empty_world_def
      cached_world_def copy_test)

lemmas run_defs = alter_def overwrite_def reset_def trigger_def read_def read_key_def
  m_current_def m_readFile_closed merged_def m_writeFile_closed m_emitAlterations_closed alloc_def log_def
  Let_def since_def JSON_stringify_def JSON_parse_def own_entries_def obj_get_def

lemmas test_defs = test_store_def test_world_def cached_store_def cached_world_def
  given_world_def cached_given_world_def copy_test

section \<open>Emission order\<close>

text \<open>
  Claim C5. Every commit hands its batch \<open>B\<close> to \<^verbatim>\<open>m_emitAlterations\<close>, which fires
  \<^verbatim>\<open>change\<close> once with the whole of \<open>B\<close> and only then, when and only when
  \<^verbatim>\<open>exposedEvents\<close> is set, one \<^verbatim>\<open>change:<key>\<close> for each alteration of \<open>B\<close>, in the order
  of \<open>B\<close>, with the value of that alteration. The emissions of a successful \<^verbatim>\<open>alter\<close>,
  \<^verbatim>\<open>overwrite\<close> or \<^verbatim>\<open>trigger\<close> are exactly those of its batch.
\<close>

theorem m_emitAlterations_order:
  "let fire = (\<lambda>B. Emit ''change'' (Batch B) #
                (if exposedEvents (m_options this)
                 then map (\<lambda>alter. Emit (''change:'' @ key alter) (Single (val alter))) B
                 else []))
   in trace (m_emitAlterations this B w) = trace w @ fire B
    \<and> (alter this k v w = Some (Inr (), wa) \<longrightarrow>
         filter is_Emit (since w wa) = fire [Alteration k (Some v)])
    \<and> (overwrite this next' w = Some (Inr (), this', wo) \<longrightarrow>
         filter is_Emit (since w wo) =
           fire (map (\<lambda>(k, v). Alteration k (Some v)) (heap w next')))
    \<and> (trigger this keys w = (Inr (), wt) \<longrightarrow>
         filter is_Emit (since w wt) =
           fire (map (\<lambda>k. Alteration k
                      (case fst (read_key this k w) of Inl e \<Rightarrow> None | Inr x \<Rightarrow> x)) keys))"
  unfolding Let_def
  using alter_emits [of this k v w wa] overwrite_emits [of this next' w this' wo]
    trigger_emits [of this keys w wt]
  by (simp add: m_emitAlterations_closed comp_def case_prod_unfold)

theorem m_emitAlterations_order_witness:
  "alter test_store ''fruit'' (JString ''banana'') test_world = Some (Inr (), after_alter)
   \<and> filter is_Emit (since test_world after_alter) =
       [Emit ''change'' (Batch [Alteration ''fruit'' (Some (JString ''banana''))]),
        Emit ''change:fruit'' (Single (Some (JString ''banana'')))]
   \<and> overwrite test_store 1 given_world = Some (Inr (), test_store, after_overwrite)
   \<and> filter is_Emit (since given_world after_overwrite) =
       [Emit ''change'' (Batch [Alteration ''animal'' (Some (JString ''cat'')),
          Alteration ''fruit'' (Some (JString ''banana'')),
          Alteration ''person''
            (Some (JObject [(''name'', JString ''Jane''), (''age'', JNumber 25)])),
          Alteration ''list'' (Some (JArray [JNumber 0, JNumber 1, JNumber 2]))]),
        Emit ''change:animal'' (Single (Some (JString ''cat''))),
        Emit ''change:fruit'' (Single (Some (JString ''banana''))),
        Emit ''change:person''
          (Single (Some (JObject [(''name'', JString ''Jane''), (''age'', JNumber 25)]))),
        Emit ''change:list'' (Single (Some (JArray [JNumber 0, JNumber 1, JNumber 2])))]
   \<and> trigger test_store [''fruit'', ''animal''] test_world = (Inr (), after_trigger)
   \<and> filter is_Emit (since test_world after_trigger) =
       [Emit ''change'' (Batch [Alteration ''fruit'' (Some (JString ''apple'')),
          Alteration ''animal'' (Some (JString ''unicorn''))]),
        Emit ''change:fruit'' (Single (Some (JString ''apple''))),
        Emit ''change:animal'' (Single (Some (JString ''unicorn'')))]"
proof -
  have a: "alter test_store ''fruit'' (JString ''banana'') test_world = Some (Inr (), after_alter)"
    by (simp add: after_alter_def run_defs test_defs)
  have b: "overwrite test_store 1 given_world = Some (Inr (), test_store, after_overwrite)"
    by (simp add: after_overwrite_def run_defs test_defs)
  have c: "trigger test_store [''fruit'', ''animal''] test_world = (Inr (), after_trigger)"
    by (simp add: after_trigger_def run_defs test_defs)
  have x: "exposedEvents (m_options test_store)"
    by (simp add: test_store_def)
  have y: "heap given_world (Suc 0) = next_conf"
    by (simp add: given_world_def alloc_def test_world_def)
  have z: "fst (read_key test_store ''fruit'' test_world) = Inr (Some (JString ''apple''))"
      "fst (read_key test_store ''animal'' test_world) = Inr (Some (JString ''unicorn''))"
    by (simp_all add: run_defs test_defs) (simp_all add: test_presets_def)
  note inst1 = m_emitAlterations_order
    [where this = test_store and B = "[]" and w = test_world and k = "''fruit''"
       and v = "JString ''banana''" and wa = after_alter and next' = 0 and this' = test_store
       and wo = test_world and keys = "[''fruit'', ''animal'']" and wt = after_trigger]
  note inst2 = m_emitAlterations_order
    [where this = test_store and B = "[]" and w = given_world and k = "''fruit''"
       and v = "JString ''banana''" and wa = test_world and next' = 1 and this' = test_store
       and wo = after_overwrite and keys = "[]" and wt = test_world]
  from inst1 inst2 a b c
  show ?thesis
    by (simp add: Let_def x y z next_conf_def)
qed

section \<open>The writer's retry\<close>




section \<open>Reading the file\<close>


section \<open>Trigger\<close>

lemma read_key_closed:
  "fst (read_key this k w) =
     (if useCache (m_options this)
      then (case m_cache this of None \<Rightarrow> Inl TypeError | Some a \<Rightarrow> Inr (obj_get (heap w a) k))
      else Inr (obj_get (merged (heap w (flattened (m_schema this))) (disk w)) k))"
  by (simp add: read_key_def m_current_def m_readFile_closed split: option.splits)

lemma trigger_frame:
  assumes "trigger this keys w = (r, w')"
  shows "disk w' = disk w"
    and "heap w' = (if useCache (m_options this) then heap w
                    else (heap w)(next_ref w :=
                           merged (heap w (flattened (m_schema this))) (disk w)))"
    and "filter is_WriteFile (since w w') = []"
  using assms
  by (auto simp: trigger_def m_current_def m_readFile_closed m_emitAlterations_closed
      since_def split: option.splits if_splits)

text \<open>
  Claim C9. \<^verbatim>\<open>trigger(...keys)\<close> leaves the disk and every object that existed as they were
  (with the cache disabled it reads the file into a new object, which it drops), writes
  no file, and leaves what \<^verbatim>\<open>read(k)\<close> gives for every \<open>k\<close> unchanged; the wrapper itself is
  not assigned to. When it returns normally its emissions are those of the batch that
  pairs each named key with the value \<^verbatim>\<open>read(key)\<close> gave before the call.
\<close>

theorem trigger_read_only:
  assumes "flattened (m_schema this) < next_ref w"
  shows "case trigger this keys w of
     (r, w') \<Rightarrow>
       disk w' = disk w \<and>
       (\<forall>b. b < next_ref w \<longrightarrow> heap w' b = heap w b) \<and>
       filter is_WriteFile (since w w') = [] \<and>
       (\<forall>k. fst (read_key this k w') = fst (read_key this k w)) \<and>
       (r = Inr () \<longrightarrow>
          filter is_Emit (since w w') =
            Emit ''change'' (Batch (map (\<lambda>k. Alteration k
                    (case fst (read_key this k w) of Inl e \<Rightarrow> None | Inr x \<Rightarrow> x)) keys)) #
             (if exposedEvents (m_options this)
              then map (\<lambda>k. Emit (''change:'' @ k)
                     (Single (case fst (read_key this k w) of Inl e \<Rightarrow> None | Inr x \<Rightarrow> x))) keys
              else []))"
proof -
  obtain r w' where t: "trigger this keys w = (r, w')" by (cases "trigger this keys w")
  note f = trigger_frame [OF t]
  from f(2) assms have flat: "heap w' (flattened (m_schema this)) = heap w (flattened (m_schema this))"
    by simp
  from f(2) have old: "\<forall>b. b < next_ref w \<longrightarrow> heap w' b = heap w b"
    by simp
  have rk: "fst (read_key this k w') = fst (read_key this k w)" for k
  proof (cases "useCache (m_options this)")
    case True
    with f(2) show ?thesis by (simp add: read_key_closed split: option.splits)
  next
    case False
    with f(1) flat show ?thesis by (simp add: read_key_closed)
  qed
  from trigger_emits [of this keys w w'] t f(1,3) old rk show ?thesis
    by (cases r) auto
qed

theorem trigger_read_only_witness:
  "flattened (m_schema test_store) < next_ref after_alter
   \<and> fst (trigger test_store [''fruit'', ''missing''] after_alter) = Inr ()
   \<and> disk (snd (trigger test_store [''fruit'', ''missing''] after_alter)) = disk after_alter
   \<and> filter is_WriteFile
        (since after_alter (snd (trigger test_store [''fruit'', ''missing''] after_alter))) = []
   \<and> filter is_Emit
        (since after_alter (snd (trigger test_store [''fruit'', ''missing''] after_alter))) =
       [Emit ''change'' (Batch [Alteration ''fruit'' (Some (JString ''banana'')),
          Alteration ''missing'' None]),
        Emit ''change:fruit'' (Single (Some (JString ''banana''))),
        Emit ''change:missing'' (Single None)]
   \<and> fst (read_key test_store ''fruit''
           (snd (trigger test_store [''fruit'', ''missing''] after_alter)))
       = Inr (Some (JString ''banana''))"
proof -
  have h: "flattened (m_schema test_store) < next_ref after_alter"
    by (simp add: after_alter_def run_defs test_defs)
  have ok: "fst (trigger test_store [''fruit'', ''missing''] after_alter) = Inr ()"
    by (simp add: trigger_def m_current_def m_readFile_closed test_store_def)
  have x: "exposedEvents (m_options test_store)"
    by (simp add: test_store_def)
  have v: "fst (read_key test_store ''fruit'' after_alter) = Inr (Some (JString ''banana''))"
      "fst (read_key test_store ''missing'' after_alter) = Inr None"
    by (simp_all add: after_alter_def run_defs test_defs)
      (simp_all add: test_presets_def Object_assign_def obj_set_def array_index_def is_digit_def)
  from trigger_read_only [OF h, of "[''fruit'', ''missing'']"] h ok show ?thesis
    by (simp add: case_prod_beta x v)
qed

section \<open>The cache\<close>

lemma m_writeFile_shape:
  assumes "m_writeFile this a w = Some (r, w')"
  shows "heap w' = heap w \<and> next_ref w' = next_ref w
       \<and> (\<exists>ts. trace w' = trace w @ WriteFile (JSON_stringify (JObject (heap w a))) # ts
              \<and> ReadFile \<notin> set ts \<and> filter is_Emit ts = []
              \<and> (r = Inr () \<longrightarrow> last (WriteFile (JSON_stringify (JObject (heap w a))) # ts)
                                = WriteFile (JSON_stringify (JObject (heap w a)))))
       \<and> (r = Inr () \<longrightarrow>
            file_content (disk w') = Some (JSON_stringify (JObject (heap w a))))
       \<and> (r \<noteq> Inr () \<longrightarrow> file_content (disk w') = file_content (disk w))"
proof (cases "disk w")
  case (DirAbsent creatable)
  with assms show ?thesis
    by (cases "allowCreate (m_options this)"; cases creatable)
      (simp_all add: m_writeFile_closed Let_def log_def, (force)+)
next
  case (DirPresent e)
  with assms show ?thesis
  proof (cases e)
    case (File rd wr old)
    with assms DirPresent show ?thesis
      by (cases wr) (simp_all add: m_writeFile_closed Let_def log_def, (force)+)
  next
    case Dangling
    with assms DirPresent show ?thesis
      by (cases "allowCreate (m_options this)")
        (simp_all add: m_writeFile_closed Let_def log_def, (force)+)
  qed (simp_all add: m_writeFile_closed Let_def log_def, (force)+)
qed

text \<open>
  Claim C2. In a store that uses the cache (the constructor fills it), \<^verbatim>\<open>read()\<close> and
  \<^verbatim>\<open>read(key)\<close> return the cache and leave the world as it is, so no file is read. Each of
  \<^verbatim>\<open>alter\<close>, \<^verbatim>\<open>overwrite\<close> and \<^verbatim>\<open>reset\<close> first changes the cache (one property set, or the
  cache replaced by the given object or by a new copy of the flattened schema) and then
  writes the content of the cache, reading no file; when it returns normally the file
  holds the content of the cache.
\<close>

theorem cached_store_writes_through:
  assumes "useCache (m_options this)" and "m_cache this = Some a"
  shows "read this w = (Some a, w)
    \<and> read_key this k w = (Inr (obj_get (heap w a) k), w)
    \<and> (alter this k v w = Some (r, w1) \<longrightarrow>
         heap w1 = (heap w)(a := obj_set k v (heap w a)) \<and>
         (\<exists>ts. since w w1 = WriteFile (JSON_stringify (JObject (heap w1 a))) # ts) \<and>
         ReadFile \<notin> set (since w w1) \<and>
         (r = Inr () \<longrightarrow>
            file_content (disk w1) = Some (JSON_stringify (JObject (heap w1 a)))))
    \<and> (overwrite this nxt w = Some (r', this', w2) \<longrightarrow>
         this' = this\<lparr>m_cache := Some nxt\<rparr> \<and> heap w2 = heap w \<and>
         (\<exists>ts. since w w2 = WriteFile (JSON_stringify (JObject (heap w2 nxt))) # ts) \<and>
         ReadFile \<notin> set (since w w2) \<and>
         (r' = Inr () \<longrightarrow>
            file_content (disk w2) = Some (JSON_stringify (JObject (heap w2 nxt)))))
    \<and> (reset this w = Some (r'', this'', w3) \<longrightarrow>
         this'' = this\<lparr>m_cache := Some (next_ref w)\<rparr> \<and>
         heap w3 = (heap w)(next_ref w :=
                      Object_assign [] (heap w (flattened (m_schema this)))) \<and>
         (\<exists>ts. since w w3 = WriteFile (JSON_stringify (JObject (heap w3 (next_ref w)))) # ts) \<and>
         ReadFile \<notin> set (since w w3) \<and>
         (r'' = Inr () \<longrightarrow>
            file_content (disk w3) = Some (JSON_stringify (JObject (heap w3 (next_ref w))))))
    \<and> (Config_from draft opts w0 = (Inr store, w) \<and> useCache (m_options store) \<longrightarrow>
         (\<exists>c. m_cache store = Some c \<and> c < next_ref w))"
proof (intro conjI impI)
  show "read this w = (Some a, w)"
    using assms by (simp add: read_def m_current_def)
  show "read_key this k w = (Inr (obj_get (heap w a) k), w)"
    using assms by (simp add: read_key_def m_current_def)
next
  assume alt: "alter this k v w = Some (r, w1)"
  from assms have cur: "m_current this w = (Some a, w)"
    by (simp add: m_current_def)
  let ?w = "w\<lparr>heap := (heap w)(a := obj_set k v (heap w a))\<rparr>"
  from alter_Some [OF alt cur] obtain wm where
    wf: "m_writeFile this a ?w = Some (r, wm)"
    and w1: "w1 = (if r = Inr () then m_emitAlterations this [Alteration k (Some v)] wm else wm)"
    by auto
  from m_writeFile_shape [OF wf] obtain ts where
    s: "heap wm = heap ?w" "trace wm = trace w @ WriteFile (JSON_stringify (JObject (heap ?w a))) # ts"
      "ReadFile \<notin> set ts"
      "r = Inr () \<longrightarrow> file_content (disk wm) = Some (JSON_stringify (JObject (heap ?w a)))"
    by auto
  show "heap w1 = (heap w)(a := obj_set k v (heap w a))"
    using s(1) w1 by (simp add: m_emitAlterations_closed)
  show "\<exists>ts. since w w1 = WriteFile (JSON_stringify (JObject (heap w1 a))) # ts"
    using s(1,2) w1 by (auto simp: m_emitAlterations_closed since_def)
  show "ReadFile \<notin> set (since w w1)"
    using s(2,3) w1 by (auto simp: m_emitAlterations_closed since_def)
  show "file_content (disk w1) = Some (JSON_stringify (JObject (heap w1 a)))" if "r = Inr ()"
    using that s(1,4) w1 by (simp add: m_emitAlterations_closed)
next
  assume ov: "overwrite this nxt w = Some (r', this', w2)"
  from overwrite_Some [OF ov] assms obtain wm where
    t: "this' = this\<lparr>m_cache := Some nxt\<rparr>"
    and wf: "m_writeFile this' nxt w = Some (r', wm)"
    and w2: "w2 = (if r' = Inr ()
                   then m_emitAlterations this'
                          (map (\<lambda>(k, v). Alteration k (Some v)) (heap w nxt)) wm
                   else wm)" by auto
  from m_writeFile_shape [OF wf] obtain ts where
    s: "heap wm = heap w" "trace wm = trace w @ WriteFile (JSON_stringify (JObject (heap w nxt))) # ts"
      "ReadFile \<notin> set ts"
      "r' = Inr () \<longrightarrow> file_content (disk wm) = Some (JSON_stringify (JObject (heap w nxt)))"
    by auto
  show "this' = this\<lparr>m_cache := Some nxt\<rparr>" by (rule t)
  show "heap w2 = heap w"
    using s(1) w2 by (simp add: m_emitAlterations_closed)
  show "\<exists>ts. since w w2 = WriteFile (JSON_stringify (JObject (heap w2 nxt))) # ts"
    using s(1,2) w2 by (auto simp: m_emitAlterations_closed since_def)
  show "ReadFile \<notin> set (since w w2)"
    using s(2,3) w2 by (auto simp: m_emitAlterations_closed since_def)
  show "file_content (disk w2) = Some (JSON_stringify (JObject (heap w2 nxt)))" if "r' = Inr ()"
    using that s(1,4) w2 by (simp add: m_emitAlterations_closed)
next
  assume rs: "reset this w = Some (r'', this'', w3)"
  let ?n = "next_ref w"
  let ?c = "Object_assign [] (heap w (flattened (m_schema this)))"
  let ?w = "w\<lparr>heap := (heap w)(?n := ?c), next_ref := Suc ?n\<rparr>"
  from rs have ov: "overwrite this ?n ?w = Some (r'', this'', w3)"
    by (simp add: reset_def alloc_def)
  from overwrite_Some [OF ov] assms obtain wm where
    t: "this'' = this\<lparr>m_cache := Some ?n\<rparr>"
    and wf: "m_writeFile this'' ?n ?w = Some (r'', wm)"
    and w3: "w3 = (if r'' = Inr ()
                   then m_emitAlterations this''
                          (map (\<lambda>(k, v). Alteration k (Some v)) (heap ?w ?n)) wm
                   else wm)" by auto
  from m_writeFile_shape [OF wf] obtain ts where
    s: "heap wm = heap ?w" "trace wm = trace w @ WriteFile (JSON_stringify (JObject (heap ?w ?n))) # ts"
      "ReadFile \<notin> set ts"
      "r'' = Inr () \<longrightarrow> file_content (disk wm) = Some (JSON_stringify (JObject (heap ?w ?n)))"
    by auto
  show "this'' = this\<lparr>m_cache := Some ?n\<rparr>" by (rule t)
  show "heap w3 = (heap w)(?n := ?c)"
    using s(1) w3 by (simp add: m_emitAlterations_closed)
  show "\<exists>ts. since w w3 = WriteFile (JSON_stringify (JObject (heap w3 ?n))) # ts"
    using s(1,2) w3 by (auto simp: m_emitAlterations_closed since_def)
  show "ReadFile \<notin> set (since w w3)"
    using s(2,3) w3 by (auto simp: m_emitAlterations_closed since_def)
  show "file_content (disk w3) = Some (JSON_stringify (JObject (heap w3 ?n)))" if "r'' = Inr ()"
    using that s(1,4) w3 by (simp add: m_emitAlterations_closed)
next
  assume "Config_from draft opts w0 = (Inr store, w) \<and> useCache (m_options store)"
  then show "\<exists>c. m_cache store = Some c \<and> c < next_ref w"
    by (auto simp: Config_from_def Schema_new_def alloc_def m_prepareResource_closed
        m_prepareCache_def m_readFile_closed Let_def split: if_splits sum.splits)
qed

theorem cached_store_writes_through_witness:
  "useCache (m_options cached_store) \<and> m_cache cached_store = Some 1
   \<and> Config_from test_draft cached_opts empty_world = (Inr cached_store, cached_world)
   \<and> read cached_store cached_given_world = (Some 1, cached_given_world)
   \<and> (\<exists>w1. alter cached_store ''fruit'' (JString ''banana'') cached_given_world
              = Some (Inr (), w1)
         \<and> ReadFile \<notin> set (since cached_given_world w1)
         \<and> file_content (disk w1) = Some (JSON_stringify (JObject (heap w1 1))))
   \<and> (\<exists>this' w2. overwrite cached_store 2 cached_given_world = Some (Inr (), this', w2)
         \<and> m_cache this' = Some 2
         \<and> file_content (disk w2) = Some (JSON_stringify (JObject (heap w2 2))))
   \<and> (\<exists>this'' w3. reset cached_store cached_given_world = Some (Inr (), this'', w3)
         \<and> m_cache this'' = Some 3
         \<and> file_content (disk w3) = Some (JSON_stringify (JObject (heap w3 3))))"
proof -
  have u: "useCache (m_options cached_store)" and c: "m_cache cached_store = Some 1"
    by (simp_all add: cached_store_def)
  have n: "next_ref cached_given_world = 3"
    by (simp add: cached_given_world_def cached_world_def alloc_def)
  have d: "disk cached_given_world = DirPresent Missing"
    by (simp add: cached_given_world_def cached_world_def alloc_def)
  obtain w1 where ea: "alter cached_store ''fruit'' (JString ''banana'') cached_given_world
              = Some (Inr (), w1)"
    by (simp add: alter_def m_current_def u c m_writeFile_closed d Let_def)
  obtain this' w2 where eo: "overwrite cached_store 2 cached_given_world = Some (Inr (), this', w2)"
    by (simp add: overwrite_def u m_writeFile_closed d Let_def)
  obtain this'' w3 where er: "reset cached_store cached_given_world = Some (Inr (), this'', w3)"
    by (simp add: reset_def alloc_def overwrite_def u m_writeFile_closed d Let_def)
  note t = cached_store_writes_through
    [OF u c, where w = cached_given_world and k = "''fruit''" and v = "JString ''banana''"
       and r = "Inr ()" and ?w1.0 = w1 and nxt = 2 and r' = "Inr ()" and this' = this'
       and ?w2.0 = w2 and r'' = "Inr ()" and this'' = this'' and ?w3.0 = w3
       and draft = test_draft and opts = cached_opts and ?w0.0 = empty_world
       and store = cached_store]
  from t ea eo er have
    "read cached_store cached_given_world = (Some 1, cached_given_world)
     \<and> ReadFile \<notin> set (since cached_given_world w1)
     \<and> file_content (disk w1) = Some (JSON_stringify (JObject (heap w1 1)))
     \<and> m_cache this' = Some 2
     \<and> file_content (disk w2) = Some (JSON_stringify (JObject (heap w2 2)))
     \<and> m_cache this'' = Some 3
     \<and> file_content (disk w3) = Some (JSON_stringify (JObject (heap w3 3)))"
    by (simp add: n)
  with u c ea eo er construct_cached show ?thesis by simp
qed

section \<open>Alter\<close>


section \<open>Overwrite, then read\<close>


lemma map_add_covered:
  assumes "distinct (map fst ys)" and "fst ` set xs \<subseteq> fst ` set ys"
  shows "map_of xs ++ map_of (rev ys) = map_of ys"
proof -
  have "dom (map_of xs) \<subseteq> dom (map_of ys)"
    using assms(2) by (simp add: dom_map_of_conv_image_fst)
  then have "map_of xs ++ map_of ys = map_of ys"
    by (auto simp: map_add_def fun_eq_iff split: option.splits)
  with assms(1) show ?thesis by (simp add: map_of_rev_distinct)
qed



section \<open>Reset\<close>

lemma m_writeFile_success_disk:
  assumes "m_writeFile this a w = Some (Inr (), w')"
  shows "\<exists>rd. disk w' = DirPresent (File rd True (JSON_stringify (JObject (heap w a))))"
proof (cases "disk w")
  case (DirAbsent creatable)
  with assms show ?thesis
    by (cases "allowCreate (m_options this)"; cases creatable)
      (auto simp: m_writeFile_closed Let_def log_def)
next
  case (DirPresent e)
  with assms show ?thesis
  proof (cases e)
    case (File rd wr old)
    with assms DirPresent show ?thesis
      by (cases wr) (auto simp: m_writeFile_closed Let_def log_def)
  next
    case Dangling
    with assms DirPresent show ?thesis
      by (cases "allowCreate (m_options this)")
        (auto simp: m_writeFile_closed Let_def log_def)
  qed (auto simp: m_writeFile_closed Let_def log_def)
qed

lemma reset_Some:
  assumes rs: "reset this w = Some (Inr (), this1, w1)"
  shows "this1 = (if useCache (m_options this) then this\<lparr>m_cache := Some (next_ref w)\<rparr> else this)"
    and "heap w1 = (heap w)(next_ref w := Object_assign [] (heap w (flattened (m_schema this))))"
    and "next_ref w1 = Suc (next_ref w)"
    and "\<exists>rd. disk w1 = DirPresent (File rd True
            (Encodes (JObject (Object_assign [] (heap w (flattened (m_schema this)))))))"
proof -
  let ?n = "next_ref w"
  let ?c = "Object_assign [] (heap w (flattened (m_schema this)))"
  let ?w = "w\<lparr>heap := (heap w)(?n := ?c), next_ref := Suc ?n\<rparr>"
  from rs have ov: "overwrite this ?n ?w = Some (Inr (), this1, w1)"
    by (simp add: reset_def alloc_def)
  from overwrite_Some [OF ov] obtain wm where
    t: "this1 = (if useCache (m_options this) then this\<lparr>m_cache := Some ?n\<rparr> else this)"
    and wf: "m_writeFile this1 ?n ?w = Some (Inr (), wm)"
    and w1: "w1 = m_emitAlterations this1
                    (map (\<lambda>(k, v). Alteration k (Some v)) (heap ?w ?n)) wm" by auto
  from m_writeFile_shape [OF wf] have h: "heap wm = heap ?w" and n: "next_ref wm = next_ref ?w"
    by simp_all
  from m_writeFile_success_disk [OF wf] obtain rd where
    d: "disk wm = DirPresent (File rd True (JSON_stringify (JObject (heap ?w ?n))))" by blast
  show "this1 = (if useCache (m_options this) then this\<lparr>m_cache := Some ?n\<rparr> else this)"
    by (rule t)
  show "heap w1 = (heap w)(?n := ?c)"
    using h w1 by (simp add: m_emitAlterations_closed)
  show "next_ref w1 = Suc ?n"
    using n w1 by (simp add: m_emitAlterations_closed)
  show "\<exists>rd. disk w1 = DirPresent (File rd True (Encodes (JObject ?c)))"
    using d w1 by (simp add: m_emitAlterations_closed JSON_stringify_def)
qed

lemma read_after_reset:
  assumes t: "this1 = (if useCache (m_options this) then this\<lparr>m_cache := Some n\<rparr> else this)"
    and h: "heap w1 n = Object_assign [] flat"
    and f: "heap w1 (flattened (m_schema this)) = flat"
    and d: "disk w1 = DirPresent (File rd True (Encodes (JObject (Object_assign [] flat))))"
    and df: "distinct (map fst flat)"
  shows "case read this1 w1 of
           (r, w2) \<Rightarrow> \<exists>b. r = Some b \<and> map_of (heap w2 b) = map_of flat"
proof (cases "useCache (m_options this)")
  case True
  with t h df show ?thesis
    by (simp add: read_def m_current_def map_of_copy)
next
  case False
  have dc: "distinct (map fst (Object_assign [] flat))"
    by (simp add: distinct_Object_assign)
  have k: "fst ` set flat \<subseteq> fst ` set (Object_assign [] flat)"
    by (simp add: keys_Object_assign)
  have "map_of (merged flat (disk w1)) = map_of flat"
  proof (cases rd)
    case True
    with d df have "map_of (merged flat (disk w1))
        = map_of flat ++ map_of (rev (Object_assign [] flat))"
      by (simp add: map_of_merged JSON_parse_def own_entries_def)
    also have "\<dots> = map_of (Object_assign [] flat)"
      using dc k by (rule map_add_covered)
    finally show ?thesis using df by (simp add: map_of_copy)
  next
    case False
    with d df show ?thesis by (simp add: map_of_merged)
  qed
  with False t f show ?thesis
    by (simp add: read_def m_current_def m_readFile_closed)
qed

text \<open>
  Claim C8. \<^verbatim>\<open>reset()\<close> is \<^verbatim>\<open>overwrite\<close> of a new object that copies the flattened schema.
  From any world in which it returns normally, \<^verbatim>\<open>read()\<close> then gives the keys and values
  of the flattened schema; a second \<^verbatim>\<open>reset()\<close> right after it returns normally too,
  leaves the disk as the first left it, and \<^verbatim>\<open>read()\<close> gives the same again.
\<close>

theorem reset_idempotent:
  assumes rs: "reset this w = Some (Inr (), this1, w1)"
    and fl: "flattened (m_schema this) < next_ref w"
    and df: "distinct (map fst (heap w (flattened (m_schema this))))"
  shows "(case alloc (Object_assign [] (heap w (flattened (m_schema this)))) w of
            (a, w0) \<Rightarrow>
              reset this w = overwrite this a w0 \<and> a = next_ref w \<and>
              map_of (heap w0 a) = map_of (heap w (flattened (m_schema this))) \<and>
              (\<forall>b. b \<noteq> a \<longrightarrow> heap w0 b = heap w b))
    \<and> (case read this1 w1 of
          (r, w2) \<Rightarrow>
            \<exists>b. r = Some b \<and> map_of (heap w2 b) = map_of (heap w (flattened (m_schema this))))
    \<and> (\<exists>this2 w2. reset this1 w1 = Some (Inr (), this2, w2) \<and> disk w2 = disk w1 \<and>
          (case read this2 w2 of
             (r, w3) \<Rightarrow>
               \<exists>b. r = Some b \<and>
                   map_of (heap w3 b) = map_of (heap w (flattened (m_schema this)))))"
proof -
  let ?f = "flattened (m_schema this)"
  let ?flat = "heap w ?f"
  let ?c = "Object_assign [] ?flat"
  note r1 = reset_Some [OF rs]
  from r1(4) obtain rd where d1: "disk w1 = DirPresent (File rd True (Encodes (JObject ?c)))"
    by blast
  from r1(2) fl have f1: "heap w1 ?f = ?flat" by simp
  from r1(2) have c1: "heap w1 (next_ref w) = ?c" by simp
  have A: "case alloc ?c w of
            (a, w0) \<Rightarrow>
              reset this w = overwrite this a w0 \<and> a = next_ref w \<and>
              map_of (heap w0 a) = map_of ?flat \<and>
              (\<forall>b. b \<noteq> a \<longrightarrow> heap w0 b = heap w b)"
    using df by (simp add: reset_def alloc_def map_of_copy)
  have B: "case read this1 w1 of
          (r, w2) \<Rightarrow> \<exists>b. r = Some b \<and> map_of (heap w2 b) = map_of ?flat"
    by (rule read_after_reset [OF r1(1) c1 f1 d1 df])
  from r1(1) have s1: "m_schema this1 = m_schema this" and o1: "m_options this1 = m_options this"
    by (simp_all split: if_splits)
  obtain this2 w2 where rs2: "reset this1 w1 = Some (Inr (), this2, w2)"
    by (simp add: reset_def alloc_def overwrite_def m_writeFile_closed d1 Let_def)
  note r2 = reset_Some [OF rs2]
  from r2(4) s1 f1 d1 rs2 have d2: "disk w2 = disk w1"
    by (auto simp: reset_def alloc_def overwrite_def m_writeFile_closed Let_def
        m_emitAlterations_closed JSON_stringify_def log_def split: if_splits)
  from r2(2) s1 f1 fl r1(3) have f2: "heap w2 ?f = ?flat" by simp
  from r2(2) s1 f1 have c2: "heap w2 (next_ref w1) = ?c" by simp
  from r2(1) s1 o1 have t2: "this2 =
      (if useCache (m_options this1) then this1\<lparr>m_cache := Some (next_ref w1)\<rparr> else this1)"
    by simp
  from f2 s1 have f2': "heap w2 (flattened (m_schema this1)) = ?flat" by simp
  from d2 d1 have d2': "disk w2 = DirPresent (File rd True (Encodes (JObject ?c)))" by simp
  have C: "case read this2 w2 of
             (r, w3) \<Rightarrow> \<exists>b. r = Some b \<and> map_of (heap w3 b) = map_of ?flat"
    by (rule read_after_reset [OF t2 c2 f2' d2' df])
  have D: "\<exists>this2 w2. reset this1 w1 = Some (Inr (), this2, w2) \<and> disk w2 = disk w1 \<and>
          (case read this2 w2 of
             (r, w3) \<Rightarrow> \<exists>b. r = Some b \<and> map_of (heap w3 b) = map_of ?flat)"
    by (intro exI [of _ this2] exI [of _ w2] conjI) (rule rs2 d2 C)+
  show ?thesis
    by (intro conjI) (rule A B D)+
qed

theorem reset_idempotent_witness:
  "flattened (m_schema test_store) < next_ref after_alter
   \<and> distinct (map fst (heap after_alter (flattened (m_schema test_store))))
   \<and> obj_get (heap after_alter 1) ''fruit'' = Some (JString ''banana'')
   \<and> (\<exists>this1 w1. reset test_store after_alter = Some (Inr (), this1, w1)
         \<and> (\<exists>b w2. read this1 w1 = (Some b, w2) \<and> map_of (heap w2 b) = map_of test_presets)
         \<and> (\<exists>this2 w2. reset this1 w1 = Some (Inr (), this2, w2) \<and> disk w2 = disk w1
               \<and> (\<exists>b w3. read this2 w2 = (Some b, w3)
                      \<and> map_of (heap w3 b) = map_of test_presets)))"
proof -
  have n: "flattened (m_schema test_store) < next_ref after_alter"
    by (simp add: after_alter_def run_defs test_defs)
  have f: "heap after_alter (flattened (m_schema test_store)) = test_presets"
    by (simp add: after_alter_def run_defs test_defs)
  have d: "distinct (map fst (heap after_alter (flattened (m_schema test_store))))"
    unfolding f by (simp add: test_presets_def)
  have b: "obj_get (heap after_alter 1) ''fruit'' = Some (JString ''banana'')"
    by (simp add: after_alter_def run_defs test_defs)
      (simp add: test_presets_def obj_set_def)
  have dk: "\<exists>c. disk after_alter = DirPresent (File True True c)"
    by (simp add: after_alter_def run_defs test_defs)
  then obtain this1 w1 where rs: "reset test_store after_alter = Some (Inr (), this1, w1)"
    by (auto simp: reset_def alloc_def overwrite_def m_writeFile_closed Let_def)
  note t = reset_idempotent [OF rs n d, unfolded f case_prod_beta]
  from t [THEN conjunct2, THEN conjunct1] have
    B: "\<exists>b w2. read this1 w1 = (Some b, w2) \<and> map_of (heap w2 b) = map_of test_presets"
    by (metis prod.collapse)
  from t [THEN conjunct2, THEN conjunct2] obtain this2 w2 where
    r2: "reset this1 w1 = Some (Inr (), this2, w2)" and d2: "disk w2 = disk w1"
    and c2: "\<exists>b. fst (read this2 w2) = Some b
               \<and> map_of (heap (snd (read this2 w2)) b) = map_of test_presets"
    by blast
  from c2 have "\<exists>b w3. read this2 w2 = (Some b, w3) \<and> map_of (heap w3 b) = map_of test_presets"
    by (metis prod.collapse)
  with B r2 d2 have
    "(\<exists>b w2. read this1 w1 = (Some b, w2) \<and> map_of (heap w2 b) = map_of test_presets)
     \<and> (\<exists>this2 w2. reset this1 w1 = Some (Inr (), this2, w2) \<and> disk w2 = disk w1
               \<and> (\<exists>b w3. read this2 w2 = (Some b, w3)
                      \<and> map_of (heap w3 b) = map_of test_presets))"
    by blast
  with n d b rs show ?thesis by blast
qed

section \<open>The invariant holds in every reachable state\<close>














section \<open>Default load, and the keys of what is read\<close>





section \<open>What alter writes\<close>




end
